theory Spec2Isabelle
  imports Main "HOL-Library.AList" "HOL-Library.Log_Nat"
begin

section \<open>Errors and small utilities of \<^verbatim>\<open>cursed.py\<close>\<close>

text \<open>
  The exceptions the modelled code can raise. \<^verbatim>\<open>raise(Exception(msg))\<close> is
  \<open>Exception msg\<close>. \<open>ZeroDivisionError\<close> and \<open>OverflowError\<close> are raised by
  Python's true division of integers, \<open>ValueError\<close> by \<^verbatim>\<open>list.index\<close> on a
  node that is not among its parent's children, \<open>AttributeError\<close> by reading an
  attribute that was never assigned.
\<close>

datatype error =
  ZeroDivisionError | OverflowError | ValueError | AttributeError | Exception string

subsection \<open>\<^verbatim>\<open>int(m / n)\<close>\<close>

text \<open>
  On Python integers \<^verbatim>\<open>m / n\<close> is true division: the result is the double nearest
  to the exact quotient, ties going to the even significand, and \<^verbatim>\<open>int\<close> then
  truncates it toward zero. A double has a significand of 53 bits, so the nearest double
  to a quotient \<open>q\<close> with \<open>2^e \<le> q < 2^(e+1)\<close> is \<open>k * 2^(e-52)\<close>, where \<open>k\<close> is
  \<open>q / 2^(e-52)\<close> rounded to the nearest integer, ties to even.
\<close>

text \<open>\<open>a / b\<close> rounded to the nearest integer, ties to even, for \<open>0 \<le> a\<close> and \<open>0 < b\<close>.\<close>

definition round_half_even :: "int \<Rightarrow> int \<Rightarrow> int" where
  "round_half_even a b =
     (let q = a div b; r = a mod b
      in if 2 * r < b then q
         else if b < 2 * r then q + 1
         else if even q then q else q + 1)"

text \<open>
  The binary exponent \<open>e\<close> of the quotient of two positive integers:
  \<open>2^e \<le> m / n < 2^(e+1)\<close>. \<open>bitlen\<close> is Python's \<^verbatim>\<open>int.bit_length\<close>.
\<close>

definition quotient_exponent :: "int \<Rightarrow> int \<Rightarrow> int" where
  "quotient_exponent m n =
     (let d = bitlen m - bitlen n
      in if (if 0 \<le> d then n * 2 ^ nat d \<le> m else n \<le> m * 2 ^ nat (- d))
         then d else d - 1)"

text \<open>
  \<^verbatim>\<open>int(m / n)\<close> for positive \<open>m\<close> and \<open>n\<close>. A quotient that rounds to \<open>2^1024\<close> or
  more is beyond the largest double and the division raises \<open>OverflowError\<close>. A quotient
  below the smallest normal double truncates to 0, as the value rounded here does.
\<close>

definition double_quotient_int :: "int \<Rightarrow> int \<Rightarrow> error + int" where
  "double_quotient_int m n =
     (let e = quotient_exponent m n
      in if e \<le> 52
         then Inr (round_half_even (m * 2 ^ nat (52 - e)) n div 2 ^ nat (52 - e))
         else (let k = round_half_even m (n * 2 ^ nat (e - 52))
               in if 1023 < e \<or> (e = 1023 \<and> k = 2 ^ 53) then Inl OverflowError
                  else Inr (k * 2 ^ nat (e - 52))))"

text \<open>
  \<^verbatim>\<open>int(m / n)\<close> for any integers: rounding to nearest-even is symmetric in the
  sign, and \<^verbatim>\<open>int\<close> truncates toward zero.
\<close>

definition int_truediv :: "int \<Rightarrow> int \<Rightarrow> error + int" where
  "int_truediv m n =
     (if n = 0 then Inl ZeroDivisionError
      else if m = 0 then Inr 0
      else (case double_quotient_int \<bar>m\<bar> \<bar>n\<bar> of
              Inl e \<Rightarrow> Inl e
            | Inr x \<Rightarrow> Inr (sgn m * sgn n * x)))"

text \<open>
  An axis argument. Every call site passes the literal 0 or 1
  (\<^verbatim>\<open>tile(0)\<close>, \<^verbatim>\<open>tile(1)\<close>, \<^verbatim>\<open>project(0)\<close>, \<^verbatim>\<open>project(1)\<close>,
  \<^verbatim>\<open>offset(0)\<close>, \<^verbatim>\<open>offset(1)\<close>), so the type has these two values.
\<close>

datatype axis = Axis0 | Axis1

text \<open>\<^verbatim>\<open>t[axis]\<close> on a pair.\<close>

definition subscript :: "int \<times> int \<Rightarrow> axis \<Rightarrow> int" where
  "subscript t a = (case a of Axis0 \<Rightarrow> fst t | Axis1 \<Rightarrow> snd t)"

type_synonym interval = "int \<times> int"

text \<open>\<^verbatim>\<open>Util.order\<close>\<close>

definition order :: "int \<times> int \<Rightarrow> interval" where
  "order p = (min (fst p) (snd p), max (fst p) (snd p))"

subsection \<open>\<^verbatim>\<open>Util.overlap\<close>\<close>

text \<open>
  The locals \<^verbatim>\<open>minimum\<close> and \<^verbatim>\<open>maximum\<close> each refer to one of the two argument
  objects, and the code compares them by identity (\<^verbatim>\<open>minimum is maximum\<close>). A value of
  \<open>arg\<close> says which argument a local refers to; \<open>deref\<close> reads it. The second test of
  each \<^verbatim>\<open>if/elif\<close> pair always holds when the first fails, integers being linearly
  ordered, so it is the \<open>else\<close> of the model.
\<close>

datatype arg = ArgA | ArgB

definition deref :: "arg \<Rightarrow> interval \<Rightarrow> interval \<Rightarrow> interval" where
  "deref r a b = (case r of ArgA \<Rightarrow> a | ArgB \<Rightarrow> b)"

definition overlap_minimum :: "interval \<Rightarrow> interval \<Rightarrow> arg" where
  "overlap_minimum a b = (if fst a \<le> fst b then ArgA else ArgB)"

definition overlap_maximum :: "interval \<Rightarrow> interval \<Rightarrow> arg" where
  "overlap_maximum a b = (if snd a \<ge> snd b then ArgA else ArgB)"

definition overlap :: "interval \<Rightarrow> interval \<Rightarrow> bool \<times> interval option" where
  "overlap a b =
     (let minimum = overlap_minimum a b;
          maximum = overlap_maximum a b
      in if minimum = maximum
         then (True, Some (if deref minimum a b = a then b else a))
         else (let (p_min, p_max) = deref minimum a b;
                   (q_min, q_max) = deref maximum a b
               in if p_max < q_min then (False, None)
                  else (True, Some (q_min, p_max))))"

section \<open>Geometry kernel\<close>

record Point =
  point_x :: int
  point_y :: int

abbreviation mk_Point :: "int \<Rightarrow> int \<Rightarrow> Point" where
  "mk_Point x y \<equiv> \<lparr>point_x = x, point_y = y\<rparr>"

text \<open>\<^verbatim>\<open>Point.__getitem__\<close> at index 0 or 1.\<close>

definition Point_getitem :: "Point \<Rightarrow> axis \<Rightarrow> int" where
  "Point_getitem p a = (case a of Axis0 \<Rightarrow> point_x p | Axis1 \<Rightarrow> point_y p)"

record Line =
  line_p :: Point
  line_q :: Point

abbreviation mk_Line :: "Point \<Rightarrow> Point \<Rightarrow> Line" where
  "mk_Line p q \<equiv> \<lparr>line_p = p, line_q = q\<rparr>"

datatype orientation_kind = VERTICAL | HORIZONTAL | ANGLED

text \<open>The box-drawing constants of class \<^verbatim>\<open>Line\<close> that the junction pass uses.\<close>

datatype glyph =
    UNICODE_H | UNICODE_V | UNICODE_X
  | UNICODE_HU | UNICODE_HD | UNICODE_VR | UNICODE_VL
  | UNICODE_TL | UNICODE_BR | UNICODE_TR | UNICODE_BL

definition vertical :: "Line \<Rightarrow> bool" where
  "vertical l = (point_x (line_p l) = point_x (line_q l))"

definition horizontal :: "Line \<Rightarrow> bool" where
  "horizontal l = (point_y (line_p l) = point_y (line_q l))"

definition orientation :: "Line \<Rightarrow> orientation_kind" where
  "orientation l =
     (if vertical l then VERTICAL
      else if horizontal l then HORIZONTAL
      else ANGLED)"

definition parallel :: "Line \<Rightarrow> Line \<Rightarrow> bool" where
  "parallel l l' = (orientation l = orientation l')"

definition project :: "Line \<Rightarrow> axis \<Rightarrow> interval" where
  "project l a = order (Point_getitem (line_p l) a, Point_getitem (line_q l) a)"

type_synonym segments = "interval \<times> interval"

text \<open>
  \<^verbatim>\<open>Line.collision\<close>. \<^verbatim>\<open>Util.overlap\<close> returns an interval with every
  \<^verbatim>\<open>True\<close>, so the pair of segments is built from the two intervals.
\<close>

definition collision :: "Line \<Rightarrow> Line \<Rightarrow> bool \<times> segments option" where
  "collision a b =
     (let (overlap_x, segment_x) = overlap (project a Axis0) (project b Axis0);
          (overlap_y, segment_y) = overlap (project a Axis1) (project b Axis1)
      in if overlap_x \<and> overlap_y
         then (case (segment_x, segment_y) of
                 (Some sx, Some sy) \<Rightarrow> (True, Some (sx, sy))
               | _ \<Rightarrow> (False, None))
         else (False, None))"

text \<open>
  \<^verbatim>\<open>Line.collisions\<close>. The dictionary \<^verbatim>\<open>results\<close> is keyed by pairs of lines
  compared by value (\<^verbatim>\<open>Line.__eq__\<close>, \<^verbatim>\<open>Line.__hash__\<close>) and keeps insertion
  order: an association list updated with \<open>AList.update\<close>. The identity test
  \<^verbatim>\<open>a is b\<close> is the equality of the two positions in \<^verbatim>\<open>lines\<close>; an object listed
  at two positions is skipped all the same, by \<^verbatim>\<open>a.parallel(b)\<close>.
\<close>

type_synonym results = "((Line \<times> Line) \<times> segments) list"

definition collisions_body :: "nat \<times> Line \<Rightarrow> nat \<times> Line \<Rightarrow> results \<Rightarrow> results" where
  "collisions_body ia jb results =
     (let (i, a) = ia; (j, b) = jb
      in if i = j \<or> parallel a b \<or> (b, a) \<in> fst ` set results then results
         else (case collision a b of
                 (True, Some segs) \<Rightarrow> AList.update (a, b) segs results
               | _ \<Rightarrow> results))"

definition collisions :: "Line list \<Rightarrow> results" where
  "collisions lines =
     fold (\<lambda>ia results. fold (collisions_body ia) (enumerate 0 lines) results)
          (enumerate 0 lines) []"

text \<open>\<^verbatim>\<open>Line.resolve_collision\<close> and \<^verbatim>\<open>Line.resolve_collisions\<close>\<close>

definition resolve_collision :: "(Line \<times> Line) \<times> segments \<Rightarrow> Point \<times> glyph" where
  "resolve_collision c =
     (let ((a, b), (sx, sy)) = c;
          p = mk_Point (fst sx) (fst sy);
          h = (if horizontal a then a else b);
          v = (if vertical a then a else b);
          r = (if p = line_p h \<and> p = line_p v then UNICODE_TL
               else if p = line_p h \<and> p = line_q v then UNICODE_BL
               else if p = line_q h \<and> p = line_p v then UNICODE_TR
               else if p = line_q h \<and> p = line_q v then UNICODE_BR
               else if p = line_p h then UNICODE_VR
               else if p = line_q h then UNICODE_VL
               else if p = line_p v then UNICODE_HD
               else if p = line_q v then UNICODE_HU
               else UNICODE_X)
      in (p, r))"

definition resolve_collisions :: "results \<Rightarrow> (Point \<times> glyph) list" where
  "resolve_collisions cs = map resolve_collision cs"

subsection \<open>\<^verbatim>\<open>Rect\<close> and \<^verbatim>\<open>Window\<close>\<close>

record Rect =
  rect_p :: Point
  rect_q :: Point

text \<open>\<^verbatim>\<open>Rect.__init__\<close>\<close>

definition Rect_init :: "Point \<Rightarrow> Point \<Rightarrow> Rect" where
  "Rect_init p q =
     \<lparr>rect_p = mk_Point (min (point_x p) (point_x q)) (min (point_y p) (point_y q)),
      rect_q = mk_Point (max (point_x p) (point_x q)) (max (point_y p) (point_y q))\<rparr>"

text \<open>\<^verbatim>\<open>Rect.__iter__\<close>: the four corners, in the order they are yielded.\<close>

definition Rect_iter :: "Rect \<Rightarrow> Point \<times> Point \<times> Point \<times> Point" where
  "Rect_iter r =
     (mk_Point (point_x (rect_p r)) (point_y (rect_p r)),
      mk_Point (point_x (rect_q r)) (point_y (rect_p r)),
      mk_Point (point_x (rect_q r)) (point_y (rect_q r)),
      mk_Point (point_x (rect_p r)) (point_y (rect_q r)))"

text \<open>\<^verbatim>\<open>Rect.border\<close>\<close>

definition Rect_border :: "Rect \<Rightarrow> Line list" where
  "Rect_border r =
     (let (a, b, c, d) = Rect_iter r
      in [mk_Line a b, mk_Line b c, mk_Line d c, mk_Line a d])"

text \<open>\<^verbatim>\<open>Rect.__add__\<close>\<close>

definition Rect_add :: "Rect \<Rightarrow> Point \<Rightarrow> Rect" where
  "Rect_add a p =
     Rect_init (mk_Point (point_x (rect_p a) + point_x p) (point_y (rect_p a) + point_y p))
               (mk_Point (point_x (rect_q a) + point_x p) (point_y (rect_q a) + point_y p))"

text \<open>
  A \<^verbatim>\<open>Window\<close> is a \<^verbatim>\<open>Rect\<close> that also holds a curses window. The curses
  window belongs to the terminal surface and is outside the model: the operations below
  are what \<^verbatim>\<open>Window.__init__\<close>, \<^verbatim>\<open>Window.move\<close> and \<^verbatim>\<open>Window.resize\<close> do to the
  two corners.
\<close>

type_synonym Window = Rect

definition Window_init :: "int \<Rightarrow> int \<Rightarrow> int \<Rightarrow> int \<Rightarrow> Window" where
  "Window_init x y w h = Rect_init (mk_Point x y) (mk_Point (x + w) (y + h))"

definition Window_move :: "Window \<Rightarrow> int \<Rightarrow> int \<Rightarrow> Window" where
  "Window_move win x y = win\<lparr>rect_p := mk_Point x y\<rparr>"

definition Window_resize :: "Window \<Rightarrow> int \<Rightarrow> int \<Rightarrow> Window" where
  "Window_resize win w h =
     win\<lparr>rect_q := mk_Point (point_x (rect_p win) + w) (point_y (rect_p win) + h)\<rparr>"

text \<open>The invariant of the data model: \<open>p \<le> q\<close> component-wise.\<close>

definition rect_ordered :: "Rect \<Rightarrow> bool" where
  "rect_ordered r =
     (point_x (rect_p r) \<le> point_x (rect_q r) \<and> point_y (rect_p r) \<le> point_y (rect_q r))"

definition line_ordered :: "Line \<Rightarrow> bool" where
  "line_ordered l =
     (point_x (line_p l) \<le> point_x (line_q l) \<and> point_y (line_p l) \<le> point_y (line_q l))"

section \<open>Layout tree\<close>

text \<open>
  \<^verbatim>\<open>LayoutNode.tile(self, axis)\<close>. The node reaches its parent for
  \<^verbatim>\<open>parent.count()\<close> and \<^verbatim>\<open>parent.size()\<close>, divides, and only then looks for
  its own position with \<^verbatim>\<open>self.index()\<close>, that is
  \<^verbatim>\<open>parent.children.index(self)\<close>. The model receives the parent's count, the
  parent's size and the node's position among the parent's children; a position from
  \<open>count\<close> on stands for a node that is not among them, for which \<^verbatim>\<open>list.index\<close>
  raises \<open>ValueError\<close>.
\<close>

definition tile :: "nat \<Rightarrow> int \<times> int \<Rightarrow> nat \<Rightarrow> axis \<Rightarrow> error + int" where
  "tile count sz index a =
     (let n = int count;
          m = subscript sz a
      in case int_truediv m n of
           Inl e \<Rightarrow> Inl e
         | Inr x \<Rightarrow>
             (let r = m - x * n
              in if index < count then Inr (if index = 0 then x + r else x)
                 else Inl ValueError))"

text \<open>The sizes of all \<open>count\<close> children of one parent, in sibling order.\<close>

definition tiles :: "nat \<Rightarrow> int \<times> int \<Rightarrow> axis \<Rightarrow> (error + int) list" where
  "tiles count sz a = map (\<lambda>i. tile count sz i a) [0..<count]"

text \<open>
  The tree: a \<^verbatim>\<open>Layout\<close> owns columns, a column owns cells, a cell lists views.
  Views and popups are objects with identity, referred to by number. The geometry of a
  column is a function of its parent layout \<open>L\<close> and its position \<open>i\<close> among the layout's
  children; the geometry of a cell is a function of the layout, of the position \<open>i\<close> of
  its parent column, of that column \<open>col\<close> and of the cell's position \<open>j\<close> among the
  column's children. As for \<open>tile\<close>, a position beyond the children stands for a node
  that its parent does not list.
\<close>

type_synonym ref = nat
type_synonym View = nat

record LayoutCell =
  cell_children :: "View list"

record LayoutColumn =
  column_children :: "LayoutCell list"

record Layout =
  tui_size :: "int \<times> int"
  layout_children :: "LayoutColumn list"
  layout_popup :: "ref option"

definition Layout_size :: "Layout \<Rightarrow> int \<times> int" where
  "Layout_size L = tui_size L"

definition Layout_count :: "Layout \<Rightarrow> nat" where
  "Layout_count L = length (layout_children L)"

definition LayoutColumn_count :: "LayoutColumn \<Rightarrow> nat" where
  "LayoutColumn_count col = length (column_children col)"

text \<open>
  \<^verbatim>\<open>LayoutColumn.width\<close> is \<^verbatim>\<open>tile(0)\<close>; its height is the layout's
  (\<^verbatim>\<open>LayoutNode.height\<close> asks the parent). \<^verbatim>\<open>LayoutNode.size\<close> evaluates the
  width, then the height.
\<close>

definition LayoutColumn_width :: "Layout \<Rightarrow> nat \<Rightarrow> error + int" where
  "LayoutColumn_width L i = tile (Layout_count L) (Layout_size L) i Axis0"

definition LayoutColumn_height :: "Layout \<Rightarrow> nat \<Rightarrow> error + int" where
  "LayoutColumn_height L i = Inr (snd (Layout_size L))"

definition LayoutColumn_size :: "Layout \<Rightarrow> nat \<Rightarrow> error + int \<times> int" where
  "LayoutColumn_size L i =
     (case LayoutColumn_width L i of
        Inl e \<Rightarrow> Inl e
      | Inr w \<Rightarrow> (case LayoutColumn_height L i of Inl e \<Rightarrow> Inl e | Inr h \<Rightarrow> Inr (w, h)))"

text \<open>
  \<^verbatim>\<open>LayoutCell.height\<close> is \<^verbatim>\<open>tile(1)\<close>, which reads the column's
  \<^verbatim>\<open>size()\<close> before it divides; the cell's width is the column's.
\<close>

definition LayoutCell_width :: "Layout \<Rightarrow> nat \<Rightarrow> LayoutColumn \<Rightarrow> nat \<Rightarrow> error + int" where
  "LayoutCell_width L i col j = LayoutColumn_width L i"

definition LayoutCell_height :: "Layout \<Rightarrow> nat \<Rightarrow> LayoutColumn \<Rightarrow> nat \<Rightarrow> error + int" where
  "LayoutCell_height L i col j =
     (case LayoutColumn_size L i of
        Inl e \<Rightarrow> Inl e
      | Inr sz \<Rightarrow> tile (LayoutColumn_count col) sz j Axis1)"

definition LayoutCell_size ::
  "Layout \<Rightarrow> nat \<Rightarrow> LayoutColumn \<Rightarrow> nat \<Rightarrow> error + int \<times> int" where
  "LayoutCell_size L i col j =
     (case LayoutCell_width L i col j of
        Inl e \<Rightarrow> Inl e
      | Inr w \<Rightarrow> (case LayoutCell_height L i col j of Inl e \<Rightarrow> Inl e | Inr h \<Rightarrow> Inr (w, h)))"

text \<open>
  \<^verbatim>\<open>LayoutNode.border_lines\<close>, from the node's \<^verbatim>\<open>width()\<close> and
  \<^verbatim>\<open>height()\<close>, and the border lines of a cell.
\<close>

definition border_lines :: "int \<Rightarrow> int \<Rightarrow> Line list" where
  "border_lines width height =
     (let (w, h) = (width - 1, height - 1)
      in [mk_Line (mk_Point 0 0) (mk_Point w 0),
          mk_Line (mk_Point 0 h) (mk_Point w h),
          mk_Line (mk_Point 0 0) (mk_Point 0 h),
          mk_Line (mk_Point w 0) (mk_Point w h)])"

definition LayoutCell_border_lines ::
  "Layout \<Rightarrow> nat \<Rightarrow> LayoutColumn \<Rightarrow> nat \<Rightarrow> error + Line list" where
  "LayoutCell_border_lines L i col j =
     (case LayoutCell_width L i col j of
        Inl e \<Rightarrow> Inl e
      | Inr width \<Rightarrow>
          (case LayoutCell_height L i col j of
             Inl e \<Rightarrow> Inl e
           | Inr height \<Rightarrow> Inr (border_lines width height)))"

text \<open>
  \<^verbatim>\<open>LayoutNode.offset\<close>: the loop walks the parent's children, stops at the node
  itself and adds \<^verbatim>\<open>node.size()[axis]\<close> for each sibling before it; a node that the
  parent does not list never stops the loop, and all the siblings are added.
  \<open>offset_loop f k\<close> adds \<open>f 0\<close>, ..., \<open>f (k - 1)\<close> and stops at the first error.
\<close>

fun offset_loop :: "(nat \<Rightarrow> error + int) \<Rightarrow> nat \<Rightarrow> error + int" where
  "offset_loop f 0 = Inr 0"
| "offset_loop f (Suc k) =
     (case offset_loop f k of
        Inl e \<Rightarrow> Inl e
      | Inr s \<Rightarrow> (case f k of Inl e \<Rightarrow> Inl e | Inr w \<Rightarrow> Inr (s + w)))"

definition LayoutColumn_offset :: "Layout \<Rightarrow> nat \<Rightarrow> error + int" where
  "LayoutColumn_offset L i =
     offset_loop (\<lambda>k. map_sum id fst (LayoutColumn_size L k)) (min i (Layout_count L))"

definition LayoutCell_offset :: "Layout \<Rightarrow> nat \<Rightarrow> LayoutColumn \<Rightarrow> nat \<Rightarrow> error + int" where
  "LayoutCell_offset L i col j =
     offset_loop (\<lambda>k. map_sum id snd (LayoutCell_size L i col k))
       (min j (LayoutColumn_count col))"

text \<open>\<^verbatim>\<open>LayoutCell.origin\<close>: the column's offset, then the cell's.\<close>

definition LayoutCell_origin ::
  "Layout \<Rightarrow> nat \<Rightarrow> LayoutColumn \<Rightarrow> nat \<Rightarrow> error + int \<times> int" where
  "LayoutCell_origin L i col j =
     (case LayoutColumn_offset L i of
        Inl e \<Rightarrow> Inl e
      | Inr x \<Rightarrow> (case LayoutCell_offset L i col j of Inl e \<Rightarrow> Inl e | Inr y \<Rightarrow> Inr (x, y)))"

text \<open>
  \<^verbatim>\<open>LayoutCell.create_window\<close> and \<^verbatim>\<open>LayoutCell.resize\<close>, on the cell's window:
  the geometry is read from the layout as it is at the call.
\<close>

definition LayoutCell_create_window ::
  "Layout \<Rightarrow> nat \<Rightarrow> LayoutColumn \<Rightarrow> nat \<Rightarrow> error + Window" where
  "LayoutCell_create_window L i col j =
     (case LayoutCell_origin L i col j of
        Inl e \<Rightarrow> Inl e
      | Inr (x, y) \<Rightarrow>
          (case LayoutCell_size L i col j of
             Inl e \<Rightarrow> Inl e
           | Inr (w, h) \<Rightarrow> Inr (Window_init x y w h)))"

definition LayoutCell_resize ::
  "Layout \<Rightarrow> nat \<Rightarrow> LayoutColumn \<Rightarrow> nat \<Rightarrow> Window \<Rightarrow> error + Window" where
  "LayoutCell_resize L i col j win =
     (case LayoutCell_origin L i col j of
        Inl e \<Rightarrow> Inl e
      | Inr (x, y) \<Rightarrow>
          (case LayoutCell_size L i col j of
             Inl e \<Rightarrow> Inl e
           | Inr (w, h) \<Rightarrow> Inr (Window_move (Window_resize win w h) x y)))"

subsection \<open>Per-view state of a cell\<close>

text \<open>
  \<^verbatim>\<open>LayoutCell.state(view)\<close>. Each cell owns a dictionary \<^verbatim>\<open>states\<close> keyed by
  the view object. \<^verbatim>\<open>view.init_state()\<close> belongs to the view: the parameter
  \<open>init_state v k\<close> is the object it returns when \<open>k\<close> calls of \<^verbatim>\<open>init_state\<close> were
  made before. The world holds the \<^verbatim>\<open>states\<close> dictionary of every cell and the log of
  the \<^verbatim>\<open>init_state\<close> calls made so far, each with the cell that made it.
\<close>

type_synonym state_obj = nat

record world =
  cell_states :: "nat \<Rightarrow> View \<rightharpoonup> state_obj"
  init_state_calls :: "(nat \<times> View) list"

definition LayoutCell_state ::
  "(View \<Rightarrow> nat \<Rightarrow> state_obj) \<Rightarrow> world \<Rightarrow> nat \<Rightarrow> View \<Rightarrow> state_obj \<times> world" where
  "LayoutCell_state init_state w cell view =
     (case cell_states w cell view of
        None \<Rightarrow>
          (let state = init_state view (length (init_state_calls w))
           in (state,
               w\<lparr>cell_states := (cell_states w)(cell := (cell_states w cell)(view \<mapsto> state)),
                 init_state_calls := init_state_calls w @ [(cell, view)]\<rparr>))
      | Some state \<Rightarrow> (state, w))"

text \<open>
  A run of state lookups (\<^verbatim>\<open>View.state(cell)\<close>, as \<^verbatim>\<open>draw\<close> and
  \<^verbatim>\<open>handle_input\<close> make them), and the world in which every cell was just
  constructed (\<^verbatim>\<open>self.states = {}\<close>).
\<close>

fun lookups ::
  "(View \<Rightarrow> nat \<Rightarrow> state_obj) \<Rightarrow> world \<Rightarrow> (nat \<times> View) list \<Rightarrow> state_obj list \<times> world" where
  "lookups init_state w [] = ([], w)"
| "lookups init_state w ((cell, view) # rest) =
     (let (state, w') = LayoutCell_state init_state w cell view;
          (states, w'') = lookups init_state w' rest
      in (state # states, w''))"

definition initial_world :: world where
  "initial_world = \<lparr>cell_states = (\<lambda>cell. Map.empty), init_state_calls = []\<rparr>"

section \<open>Popups\<close>

text \<open>
  Popups and the layout refer to each other (\<^verbatim>\<open>popup.parent\<close>,
  \<^verbatim>\<open>owner.popup\<close>), so they live in a heap of objects. Creating the curses window in
  \<^verbatim>\<open>Popup.__init__\<close> is an effect on the terminal surface, outside the model. The
  attribute \<^verbatim>\<open>popup\<close> of a popup is assigned by the last statement of
  \<^verbatim>\<open>Popup.__init__\<close> only: \<open>popup_popup\<close> is \<open>None\<close> while the attribute does not
  exist and \<open>Some v\<close> once it holds \<open>v\<close>. A layout has the attribute from the start of
  \<^verbatim>\<open>Layout.__init__\<close>.
\<close>

record Popup =
  popup_position :: Point
  popup_parent :: ref
  popup_width :: int
  popup_height :: int
  popup_window :: Window
  popup_popup :: "ref option option"

datatype obj = LayoutObj Layout | PopupObj Popup

type_synonym heap = "ref \<rightharpoonup> obj"

text \<open>
  Reading \<^verbatim>\<open>owner.popup\<close>: \<open>popup_attr\<close> is \<open>None\<close> when the attribute does not
  exist; \<open>get_popup\<close> is the popup in the slot, if there is one. Writing it: \<open>set_popup\<close>.
\<close>

definition popup_attr :: "obj \<Rightarrow> ref option option" where
  "popup_attr ob =
     (case ob of LayoutObj L \<Rightarrow> Some (layout_popup L) | PopupObj P \<Rightarrow> popup_popup P)"

definition get_popup :: "obj \<Rightarrow> ref option" where
  "get_popup ob = (case popup_attr ob of None \<Rightarrow> None | Some slot \<Rightarrow> slot)"

definition set_popup :: "obj \<Rightarrow> ref option \<Rightarrow> obj" where
  "set_popup ob v =
     (case ob of
        LayoutObj L \<Rightarrow> LayoutObj (L\<lparr>layout_popup := v\<rparr>)
      | PopupObj P \<Rightarrow> PopupObj (P\<lparr>popup_popup := Some v\<rparr>))"

definition owner_popup :: "heap \<Rightarrow> ref \<Rightarrow> ref option" where
  "owner_popup hp owner = (case hp owner of None \<Rightarrow> None | Some ob \<Rightarrow> get_popup ob)"

text \<open>
  \<^verbatim>\<open>Popup.__init__(self, parent, x, y, width, height)\<close>: the heap after the call and
  the exception raised, if any. \<open>self\<close> is the new object. A popup object is true in a
  condition, so \<^verbatim>\<open>if self.parent.popup\<close> tests that the slot is not \<^verbatim>\<open>None\<close>;
  reading the slot of an owner that has no such attribute raises \<open>AttributeError\<close>.
\<close>

definition Popup_init ::
  "heap \<Rightarrow> ref \<Rightarrow> ref \<Rightarrow> int \<Rightarrow> int \<Rightarrow> int \<Rightarrow> int \<Rightarrow> heap \<times> error option" where
  "Popup_init hp self parent x y width height =
     (let this = \<lparr>popup_position = mk_Point x y, popup_parent = parent,
                  popup_width = width, popup_height = height,
                  popup_window = Window_init x y width height, popup_popup = None\<rparr>;
          hp1 = hp(self \<mapsto> PopupObj this)
      in case hp1 parent of
           None \<Rightarrow> (hp1, Some AttributeError)
         | Some owner \<Rightarrow>
             (case popup_attr owner of
                None \<Rightarrow> (hp1, Some AttributeError)
              | Some slot \<Rightarrow>
                  if slot \<noteq> None
                  then (hp1, Some (Exception ''Parent already has an active popup''))
                  else (let hp2 = hp1(parent \<mapsto> set_popup owner (Some self))
                        in case hp2 self of
                             None \<Rightarrow> (hp2, Some AttributeError)
                           | Some me \<Rightarrow> (hp2(self \<mapsto> set_popup me None), None))))"

text \<open>\<^verbatim>\<open>Layout.popup_set\<close>: the layout after the call and the exception raised, if any.\<close>

definition Layout_popup_set :: "Layout \<Rightarrow> ref \<Rightarrow> Layout \<times> error option" where
  "Layout_popup_set L popup =
     (if layout_popup L \<noteq> None then (L, Some (Exception ''Two popups''))
      else (L\<lparr>layout_popup := Some popup\<rparr>, None))"

section \<open>The junction table as the specification words it\<close>

text \<open>
  The rules of the specification's \<open>resolveJunction\<close>, in its order, for a horizontal line
  \<open>h\<close>, a vertical line \<open>v\<close> and the intersection point \<open>p\<close>; a line's start is its \<open>p\<close>
  and its end is its \<open>q\<close>. \<^verbatim>\<open>resolve_collision\<close> above is compared with it.
\<close>

definition junction_glyph :: "Line \<Rightarrow> Line \<Rightarrow> Point \<Rightarrow> glyph" where
  "junction_glyph h v p =
     (if p = line_p h \<and> p = line_p v then UNICODE_TL
      else if p = line_p h \<and> p = line_q v then UNICODE_BL
      else if p = line_q h \<and> p = line_p v then UNICODE_TR
      else if p = line_q h \<and> p = line_q v then UNICODE_BR
      else if p = line_p h then UNICODE_VR
      else if p = line_q h then UNICODE_VL
      else if p = line_p v then UNICODE_HD
      else if p = line_q v then UNICODE_HU
      else UNICODE_X)"

section \<open>The invariants of the state dictionaries\<close>

text \<open>
  The log has one \<^verbatim>\<open>init_state\<close> call for each (cell, view) pair that has an
  entry in a \<^verbatim>\<open>states\<close> dictionary, and none for the others; and every entry
  of a dictionary is the object that a logged call of the pair returned.
\<close>

definition calls_match_states :: "world \<Rightarrow> bool" where
  "calls_match_states w =
     (\<forall>c v. count_list (init_state_calls w) (c, v)
              = (if cell_states w c v = None then 0 else 1))"

definition states_from_calls :: "(View \<Rightarrow> nat \<Rightarrow> state_obj) \<Rightarrow> world \<Rightarrow> bool" where
  "states_from_calls init_state w =
     (\<forall>c v s. cell_states w c v = Some s \<longrightarrow>
        (\<exists>k < length (init_state_calls w).
            init_state_calls w ! k = (c, v) \<and> s = init_state v k))"

section \<open>True division below \<open>2^53\<close>\<close>

text \<open>
  While the dividend is below \<open>2^53\<close> the double nearest to the quotient truncates to the
  floor of the quotient: rounding up to the next integer would need the quotient within
  half a unit in the last place of it, and the divisor is too small for that.
\<close>

lemma round_half_even_bounds:
  assumes "0 < b"
  shows "a div b \<le> round_half_even a b \<and> round_half_even a b \<le> a div b + 1"
  by (simp add: round_half_even_def Let_def)

lemma round_half_even_down:
  assumes "2 * (a mod b) < b"
  shows "round_half_even a b = a div b"
  using assms by (simp add: round_half_even_def Let_def)

lemma scaled_round_floor:
  assumes M: "0 \<le> M" "M < 2 ^ 53" and n: "0 < n" and big: "n * 2 ^ 52 \<le> M * 2 ^ s"
  shows "round_half_even (M * 2 ^ s) n div 2 ^ s = M div n"
proof -
  let ?P = "(2::int) ^ s"
  let ?A = "M * ?P"
  let ?fl = "M div n"
  let ?rem = "M mod n"
  let ?k = "round_half_even ?A n"
  have P: "0 < ?P" by simp
  have rem: "0 \<le> ?rem" "?rem < n" using n by simp_all
  have A: "?A = ?fl * ?P * n + ?rem * ?P"
  proof -
    have "(?fl * n + ?rem) * ?P = ?fl * ?P * n + ?rem * ?P"
      by (simp only: distrib_right mult.assoc mult.commute [of n])
    moreover have "?fl * n + ?rem = M" by simp
    ultimately show ?thesis by simp
  qed
  have Adiv: "?A div n = ?fl * ?P + (?rem * ?P) div n"
    using n by (simp add: A)
  have Amod: "?A mod n = (?rem * ?P) mod n"
    by (simp add: A)
  have Blt: "(?rem * ?P) div n < ?P"
  proof (rule ccontr)
    assume "\<not> (?rem * ?P) div n < ?P"
    then have "?P \<le> (?rem * ?P) div n" by simp
    then have "n * ?P \<le> n * ((?rem * ?P) div n)"
      using n by (intro mult_left_mono) simp_all
    also have "\<dots> = ?rem * ?P - (?rem * ?P) mod n"
      by (simp only: minus_mod_eq_mult_div)
    also have "\<dots> \<le> ?rem * ?P"
      using n by simp
    finally have "n * ?P \<le> ?rem * ?P" .
    then show False using rem P by simp
  qed
  have lower: "?fl * ?P \<le> ?k"
  proof -
    have "0 \<le> (?rem * ?P) div n" using rem n P by (simp add: pos_imp_zdiv_nonneg_iff)
    then have "?fl * ?P \<le> ?A div n" using Adiv by simp
    then show ?thesis using round_half_even_bounds [OF n, of ?A] by linarith
  qed
  have upper: "?k < (?fl + 1) * ?P"
  proof (cases "(?rem * ?P) div n \<le> ?P - 2")
    case True
    then have "?A div n + 1 < (?fl + 1) * ?P" using Adiv by (simp add: algebra_simps)
    then show ?thesis using round_half_even_bounds [OF n, of ?A] by linarith
  next
    case False
    then have top: "(?rem * ?P) div n = ?P - 1" using Blt by linarith
    have "(?rem * ?P) mod n = ?rem * ?P - ((?rem * ?P) div n) * n"
      by (simp add: minus_div_mult_eq_mod)
    then have md: "?A mod n = ?rem * ?P - (?P - 1) * n" using top Amod by simp
    have nlt: "n < 2 * ?P"
    proof -
      have "n * 2 ^ 52 \<le> M * ?P" using big .
      also have "\<dots> < 2 ^ 53 * ?P" using M P by simp
      finally have "n * 2 ^ 52 < (2 * ?P) * 2 ^ 52" by simp
      then show ?thesis by simp
    qed
    have "(n - ?rem) * (2 * ?P) \<ge> 1 * (2 * ?P)"
      using rem P by (intro mult_right_mono) simp_all
    then have "n < (n - ?rem) * (2 * ?P)" using nlt by linarith
    then have "2 * (?A mod n) < n" unfolding md by (simp add: algebra_simps)
    then have "?k = ?A div n" by (rule round_half_even_down)
    then show ?thesis using Adiv top by (simp add: algebra_simps)
  qed
  have "?k = ?P * ?fl + (?k - ?P * ?fl)" by simp
  moreover have "0 \<le> ?k - ?P * ?fl" using lower by (simp add: mult.commute)
  moreover have "?k - ?P * ?fl < ?P" using upper by (simp add: algebra_simps)
  ultimately show "?k div ?P = ?fl" by (rule int_div_pos_eq)
qed

lemma quotient_exponent_small:
  assumes "0 < M" "M < 2 ^ 53" "0 < n"
  shows "quotient_exponent M n \<le> 52
       \<and> n * 2 ^ 52 \<le> M * 2 ^ nat (52 - quotient_exponent M n)"
proof -
  let ?bm = "bitlen M" and ?bn = "bitlen n"
  let ?d = "?bm - ?bn"
  have bm: "2 ^ nat (?bm - 1) \<le> M" "M < 2 ^ nat ?bm" using bitlen_bounds [OF assms(1)] by simp_all
  have bn: "2 ^ nat (?bn - 1) \<le> n" "n < 2 ^ nat ?bn" using bitlen_bounds [OF assms(3)] by simp_all
  have bm53: "?bm \<le> 53" using assms(2) by (simp add: bitlen_le_iff_power)
  have bn1: "1 \<le> ?bn" using assms(3) bitlen_eq_zero_iff [of n] bitlen_nonneg [of n] by linarith
  have bm1: "1 \<le> ?bm" using assms(1) bitlen_eq_zero_iff [of M] bitlen_nonneg [of M] by linarith
  have d52: "?d \<le> 52" using bm53 bn1 by simp
  show ?thesis
  proof (cases "if 0 \<le> ?d then n * 2 ^ nat ?d \<le> M else n \<le> M * 2 ^ nat (- ?d)")
    case True
    then have e: "quotient_exponent M n = ?d" by (simp add: quotient_exponent_def Let_def)
    have "n * 2 ^ 52 \<le> M * 2 ^ nat (52 - ?d)"
    proof (cases "0 \<le> ?d")
      case pos: True
      then have le: "n * 2 ^ nat ?d \<le> M" using True by simp
      have "(52::nat) = nat ?d + nat (52 - ?d)" using pos d52 by simp
      then have "n * 2 ^ 52 = (n * 2 ^ nat ?d) * 2 ^ nat (52 - ?d)"
        by (metis mult.assoc power_add)
      also have "\<dots> \<le> M * 2 ^ nat (52 - ?d)" using le by (intro mult_right_mono) simp_all
      finally show ?thesis .
    next
      case neg: False
      then have le: "n \<le> M * 2 ^ nat (- ?d)" using True by simp
      have "nat (52 - ?d) = nat (- ?d) + 52" using neg by simp
      then have eq: "M * 2 ^ nat (52 - ?d) = (M * 2 ^ nat (- ?d)) * 2 ^ 52"
        by (simp only: power_add mult.assoc)
      have "n * 2 ^ 52 \<le> (M * 2 ^ nat (- ?d)) * 2 ^ 52"
        using le by (intro mult_right_mono) simp_all
      then show ?thesis unfolding eq .
    qed
    then show ?thesis using e d52 by simp
  next
    case False
    then have e: "quotient_exponent M n = ?d - 1" by (simp add: quotient_exponent_def Let_def)
    have "nat (52 - (?d - 1)) + nat (?bm - 1) = 52 + nat ?bn" using bm1 bn1 bm53 by simp
    then have pw: "(2::int) ^ nat (52 - (?d - 1)) * 2 ^ nat (?bm - 1) = 2 ^ 52 * 2 ^ nat ?bn"
      by (metis power_add)
    have "n * 2 ^ 52 \<le> 2 ^ nat ?bn * 2 ^ 52" using bn(2) by (intro mult_right_mono) simp_all
    also have "\<dots> = 2 ^ nat (?bm - 1) * 2 ^ nat (52 - (?d - 1))" using pw by (simp add: mult.commute)
    also have "\<dots> \<le> M * 2 ^ nat (52 - (?d - 1))" using bm(1) by (intro mult_right_mono) simp_all
    finally show ?thesis using e d52 by simp
  qed
qed

lemma double_quotient_int_small:
  assumes "0 < M" "M < 2 ^ 53" "0 < n"
  shows "double_quotient_int M n = Inr (M div n)"
proof -
  let ?e = "quotient_exponent M n"
  have small: "?e \<le> 52" and big: "n * 2 ^ 52 \<le> M * 2 ^ nat (52 - ?e)"
    using quotient_exponent_small [OF assms] by simp_all
  have "round_half_even (M * 2 ^ nat (52 - ?e)) n div 2 ^ nat (52 - ?e) = M div n"
    using assms big by (intro scaled_round_floor) simp_all
  then show ?thesis using small by (simp add: double_quotient_int_def Let_def)
qed

lemma int_truediv_small:
  assumes "0 \<le> M" "M < 2 ^ 53" "0 < n"
  shows "int_truediv M n = Inr (M div n)"
proof (cases "M = 0")
  case True
  then show ?thesis using assms(3) by (simp add: int_truediv_def)
next
  case False
  then have "0 < M" using assms(1) by simp
  then have "double_quotient_int M n = Inr (M div n)"
    using assms(2,3) by (rule double_quotient_int_small)
  then show ?thesis using assms \<open>0 < M\<close> by (simp add: int_truediv_def)
qed

section \<open>Tiling: the shares and their sum\<close>

lemma tile_of_quotient:
  assumes "int_truediv (subscript sz a) (int n) = Inr x" and "i < n"
  shows "tile n sz i a
           = Inr (if i = 0 then x + (subscript sz a - x * int n) else x)"
  using assms by (simp add: tile_def Let_def)

lemma tile_value:
  assumes "1 \<le> n" and "0 \<le> M" and "M < 2 ^ 53" and "subscript sz a = M" and "i < n"
  shows "tile n sz i a =
           Inr (if i = 0 then M div int n + (M - (M div int n) * int n) else M div int n)"
proof -
  have "int_truediv (subscript sz a) (int n) = Inr (M div int n)"
    using assms by (simp add: int_truediv_small)
  then show ?thesis using assms(4,5) tile_of_quotient by simp
qed

lemma sum_list_const_upt:
  "sum_list (map (\<lambda>i. (c::int)) [a..<b]) = int (b - a) * c"
  by (induction b) (simp_all add: Suc_diff_le algebra_simps)

lemma tiles_of_quotient:
  assumes "1 \<le> n" and "int_truediv (subscript sz a) (int n) = Inr x"
  shows "\<exists>xs. tiles n sz a = map Inr xs \<and> length xs = n \<and> sum_list xs = subscript sz a"
proof -
  let ?M = "subscript sz a"
  let ?f = "\<lambda>i. if i = 0 then x + (?M - x * int n) else x"
  obtain k where n: "n = Suc k" using assms(1) by (cases n) auto
  have eq: "tiles n sz a = map Inr (map ?f [0..<n])"
    using assms(2) by (simp add: tiles_def tile_of_quotient)
  have "[0..<n] = 0 # [1..<n]" using n by (simp add: upt_rec)
  then have "map ?f [0..<n] = (x + (?M - x * int n)) # map (\<lambda>i. x) [1..<n]"
    by simp
  then have "sum_list (map ?f [0..<n]) = x + (?M - x * int n) + int (n - 1) * x"
    by (simp add: sum_list_const_upt)
  also have "\<dots> = ?M" using n by (simp add: algebra_simps)
  finally have "sum_list (map ?f [0..<n]) = ?M" .
  then show ?thesis using eq by (intro exI [of _ "map ?f [0..<n]"]) simp
qed

lemma tile_returns_quotient:
  assumes "tile n sz i a = Inr s"
  shows "\<exists>x. int_truediv (subscript sz a) (int n) = Inr x"
  using assms by (cases "int_truediv (subscript sz a) (int n)") (simp_all add: tile_def Let_def)

text \<open>
  Claim C1, as stated, fails for large extents: \<^verbatim>\<open>int(m / n)\<close> goes through a double,
  which has 53 bits. With \<open>M = 10^17\<close> and \<open>n = 3\<close> the quotient rounds to
  \<open>33333333333333332\<close>, which the children at index \<open>> 0\<close> receive, while
  \<open>floor (M / n)\<close> is \<open>33333333333333333\<close>; the first child receives
  \<open>33333333333333336\<close>.
\<close>

theorem tile_floor_share_counterexample:
  "tile 3 (100000000000000000, 24) 1 Axis0 = Inr 33333333333333332
   \<and> tile 3 (100000000000000000, 24) 0 Axis0 = Inr 33333333333333336
   \<and> (100000000000000000 :: int) div 3 = 33333333333333333
   \<and> tile 3 (100000000000000000, 24) 1 Axis0 \<noteq> Inr (100000000000000000 div 3)"
  by (simp add: tile_def subscript_def int_truediv_def double_quotient_int_def
        quotient_exponent_def round_half_even_def compute_bitlen Let_def)

text \<open>
  Claim C1, amended. A parent with \<open>n \<ge> 1\<close> children sharing the extent \<open>M\<close> along an
  axis, with \<open>0 \<le> M < 2^53\<close>: \<^verbatim>\<open>tile\<close> returns a size for every child, the \<open>n\<close>
  sizes sum exactly to \<open>M\<close>, every child at index \<open>i > 0\<close> receives \<open>floor (M / n)\<close> and
  the child at index 0 receives \<open>floor (M / n)\<close> plus the remainder
  \<open>M - floor (M / n) * n\<close>. For any \<open>M \<ge> 0\<close>, whenever \<^verbatim>\<open>tile\<close> returns a size for a
  child it returns one for every child, and the \<open>n\<close> sizes sum exactly to \<open>M\<close>.
\<close>

theorem tile_sum_and_shares:
  assumes "1 \<le> n" and "0 \<le> M" and "subscript sz a = M"
  shows "(M < 2 ^ 53 \<longrightarrow>
            (\<exists>xs. tiles n sz a = map Inr xs \<and> length xs = n \<and> sum_list xs = M)
          \<and> (\<forall>i. 0 < i \<and> i < n \<longrightarrow> tile n sz i a = Inr (M div int n))
          \<and> tile n sz 0 a = Inr (M div int n + (M - (M div int n) * int n)))
       \<and> (\<forall>i s. tile n sz i a = Inr s \<longrightarrow>
            (\<exists>xs. tiles n sz a = map Inr xs \<and> length xs = n \<and> sum_list xs = M))"
proof -
  have any: "\<forall>i s. tile n sz i a = Inr s \<longrightarrow>
      (\<exists>xs. tiles n sz a = map Inr xs \<and> length xs = n \<and> sum_list xs = M)"
    using tile_returns_quotient tiles_of_quotient [OF assms(1)] assms(3) by metis
  have small: "M < 2 ^ 53 \<longrightarrow>
        (\<exists>xs. tiles n sz a = map Inr xs \<and> length xs = n \<and> sum_list xs = M)
      \<and> (\<forall>i. 0 < i \<and> i < n \<longrightarrow> tile n sz i a = Inr (M div int n))
      \<and> tile n sz 0 a = Inr (M div int n + (M - (M div int n) * int n))"
  proof
    assume lt: "M < 2 ^ 53"
    have zero: "tile n sz 0 a = Inr (M div int n + (M - (M div int n) * int n))"
      using assms lt by (simp add: tile_value)
    have rest: "\<forall>i. 0 < i \<and> i < n \<longrightarrow> tile n sz i a = Inr (M div int n)"
      using assms lt by (simp add: tile_value)
    show "(\<exists>xs. tiles n sz a = map Inr xs \<and> length xs = n \<and> sum_list xs = M)
      \<and> (\<forall>i. 0 < i \<and> i < n \<longrightarrow> tile n sz i a = Inr (M div int n))
      \<and> tile n sz 0 a = Inr (M div int n + (M - (M div int n) * int n))"
      using zero rest any by blast
  qed
  show ?thesis using small any by (rule conjI)
qed

theorem tile_sum_and_shares_witness:
  "tiles 3 (80, 24) Axis0 = [Inr 28, Inr 26, Inr 26]
   \<and> (\<exists>xs. tiles 3 (80, 24) Axis0 = map Inr xs \<and> length xs = 3 \<and> sum_list xs = 80)
   \<and> tile 3 (80, 24) 2 Axis0 = Inr (80 div 3)
   \<and> tile 3 (80, 24) 0 Axis0 = Inr (80 div 3 + (80 - (80 div 3) * 3))"
  using tile_sum_and_shares [of 3 80 "(80, 24)" Axis0]
  by (simp add: subscript_def tiles_def tile_def int_truediv_def double_quotient_int_def
        quotient_exponent_def round_half_even_def compute_bitlen upt_rec Let_def)

text \<open>
  Claim C7, as stated, fails: the remainder goes to the first child alone, so with
  \<open>M = 5\<close> and \<open>n = 3\<close> the sizes are 3, 1, 1 and the first two differ by 2.
\<close>

theorem tile_differ_by_one_counterexample:
  "tile 3 (5, 24) 0 Axis0 = Inr 3 \<and> tile 3 (5, 24) 1 Axis0 = Inr 1
   \<and> \<not> \<bar>projr (tile 3 (5, 24) 0 Axis0) - projr (tile 3 (5, 24) 1 Axis0)\<bar> \<le> 1"
  by (simp add: tile_def subscript_def int_truediv_def double_quotient_int_def
        quotient_exponent_def round_half_even_def compute_bitlen Let_def)

text \<open>
  Claim C7, amended. For \<open>0 \<le> M < 2^53\<close> and \<open>n \<ge> 1\<close>, any two of the \<open>n\<close> tile sizes
  differ by at most the remainder \<open>M mod n\<close>, which is at most \<open>n - 1\<close>: the children at
  index \<open>> 0\<close> all receive \<open>floor (M / n)\<close>, and the first exceeds them by exactly
  \<open>M mod n\<close>.
\<close>

theorem tile_differ_by_remainder:
  assumes "1 \<le> n" and "0 \<le> M" and "M < 2 ^ 53" and "subscript sz a = M"
    and "i < n" and "j < n"
  shows "\<exists>si sj. tile n sz i a = Inr si \<and> tile n sz j a = Inr sj
           \<and> \<bar>si - sj\<bar> \<le> M mod int n \<and> M mod int n \<le> int n - 1
           \<and> (0 < i \<longrightarrow> si = M div int n)
           \<and> (0 < j \<longrightarrow> sj = M div int n)
           \<and> (i = 0 \<longrightarrow> si = M div int n + M mod int n)
           \<and> (i = 0 \<and> 0 < j \<longrightarrow> si - sj = M mod int n)"
proof -
  have r: "M - (M div int n) * int n = M mod int n"
    by (simp add: minus_div_mult_eq_mod)
  have lo: "0 \<le> M mod int n"
    using assms(1) by simp
  have hi: "M mod int n \<le> int n - 1"
    using assms(1) pos_mod_bound [of "int n" M] by linarith
  have ti: "tile n sz i a = Inr (if i = 0 then M div int n + M mod int n else M div int n)"
    using tile_value [OF assms(1-4) assms(5)] r by simp
  have tj: "tile n sz j a = Inr (if j = 0 then M div int n + M mod int n else M div int n)"
    using tile_value [OF assms(1-4) assms(6)] r by simp
  show ?thesis
    using lo hi by (simp add: ti tj)
qed

theorem tile_differ_by_remainder_witness:
  "(\<exists>si sj. tile 3 (5, 24) 0 Axis0 = Inr si \<and> tile 3 (5, 24) 2 Axis0 = Inr sj
       \<and> \<bar>si - sj\<bar> \<le> 5 mod 3 \<and> si - sj = 5 mod 3 \<and> sj = 5 div 3)
   \<and> tile 3 (5, 24) 0 Axis0 = Inr 3 \<and> tile 3 (5, 24) 2 Axis0 = Inr 1"
  using tile_differ_by_remainder [of 3 5 "(5, 24)" Axis0 0 2]
  by (simp add: tile_def subscript_def int_truediv_def double_quotient_int_def
        quotient_exponent_def round_half_even_def compute_bitlen Let_def)

section \<open>Interval overlap\<close>

lemma overlap_cases:
  "overlap a b =
     (if fst a \<le> fst b \<and> snd b \<le> snd a then (True, Some b)
      else if fst b < fst a \<and> snd a < snd b then (True, Some a)
      else if fst a \<le> fst b then
        (if snd a < fst b then (False, None) else (True, Some (fst b, snd a)))
      else (if snd b < fst a then (False, None) else (True, Some (fst a, snd b))))"
  by (cases a; cases b)
     (auto simp add: overlap_def overlap_minimum_def overlap_maximum_def deref_def Let_def)

text \<open>
  Claim C2. For closed integer intervals \<open>a\<close> and \<open>b\<close> (each with lower bound \<open>\<le>\<close> upper
  bound): \<^verbatim>\<open>overlap(a, b)\<close> answers true exactly when the later start is \<open>\<le>\<close> the
  earlier end; when one interval contains the other the result is the smaller interval's
  bounds; the tie at equal starts goes to the first argument as \<^verbatim>\<open>minimum\<close>, so that
  the second argument is the one returned as contained whenever it ends no later (equal
  intervals included); every overlap returns the intersection
  \<open>[max starts, min ends]\<close>; and without overlap the result is \<open>(False, None)\<close>.
\<close>

theorem overlap_spec:
  assumes "fst a \<le> snd a" and "fst b \<le> snd b"
  shows "(fst (overlap a b) \<longleftrightarrow> max (fst a) (fst b) \<le> min (snd a) (snd b))
       \<and> (fst a \<le> fst b \<and> snd b \<le> snd a \<longrightarrow> overlap a b = (True, Some b))
       \<and> (fst b \<le> fst a \<and> snd a \<le> snd b \<longrightarrow> overlap a b = (True, Some a))
       \<and> (fst a = fst b \<longrightarrow> overlap_minimum a b = ArgA)
       \<and> (fst a = fst b \<and> snd b \<le> snd a \<longrightarrow> overlap a b = (True, Some b))
       \<and> (max (fst a) (fst b) \<le> min (snd a) (snd b) \<longrightarrow>
            overlap a b = (True, Some (max (fst a) (fst b), min (snd a) (snd b))))
       \<and> (\<not> max (fst a) (fst b) \<le> min (snd a) (snd b) \<longrightarrow> overlap a b = (False, None))"
  using assms
  by (cases a; cases b) (auto simp add: overlap_cases overlap_minimum_def)

theorem overlap_spec_witness:
  "overlap (0, 10) (3, 5) = (True, Some (3, 5))
   \<and> overlap (3, 5) (0, 10) = (True, Some (3, 5))
   \<and> overlap (0, 10) (0, 10) = (True, Some (0, 10))
   \<and> overlap (0, 5) (0, 10) = (True, Some (0, 5))
   \<and> overlap (0, 5) (3, 10) = (True, Some (3, 5))
   \<and> overlap (0, 5) (5, 10) = (True, Some (5, 5))
   \<and> overlap (0, 5) (6, 10) = (False, None)
   \<and> overlap (6, 10) (0, 5) = (False, None)
   \<and> (fst (overlap (0, 5) (3, 10)) \<longleftrightarrow> max (0::int) 3 \<le> min 5 10)"
  using overlap_spec [of "(0, 5)" "(3, 10)"]
  by (simp add: overlap_cases)

section \<open>Collisions and junction glyphs\<close>

lemmas collisions_eval =
  collisions_def collisions_body_def collision_def overlap_cases project_def order_def
  Point_getitem_def parallel_def orientation_def vertical_def horizontal_def
  enumerate_eq_zip Let_def

text \<open>
  Where \<^verbatim>\<open>resolve_collision\<close> follows the table: for a pair made of one horizontal
  line \<open>h\<close> and one vertical line \<open>v\<close>, in either order, whose first line is not a
  single point, the code takes \<open>h\<close> for \<^verbatim>\<open>h\<close> and \<open>v\<close> for \<^verbatim>\<open>v\<close> and returns
  the glyph of the table.
\<close>

lemma resolve_collision_table:
  assumes "horizontal h" and "vertical v"
    and "(a, b) = (h, v) \<or> (a, b) = (v, h)"
    and "line_p a \<noteq> line_q a"
  shows "resolve_collision ((a, b), (sx, sy))
           = (mk_Point (fst sx) (fst sy), junction_glyph h v (mk_Point (fst sx) (fst sy)))"
proof -
  have deg: "vertical a \<and> horizontal a \<longrightarrow> line_p a = line_q a"
    by (cases a, cases "line_p a", cases "line_q a")
       (auto simp add: vertical_def horizontal_def)
  have sel: "(if horizontal a then a else b) = h \<and> (if vertical a then a else b) = v"
    using assms deg by auto
  show ?thesis
    using sel by (simp add: resolve_collision_def junction_glyph_def Let_def)
qed

text \<open>
  The junctions the specification lists: for the horizontal line \<open>(0,0)-(10,0)\<close>, the
  vertical line \<open>(0,0)-(0,5)\<close> gives the top-left corner at \<open>(0,0)\<close>, \<open>(0,-5)-(0,0)\<close> the
  bottom-left corner, and \<open>(5,-3)-(5,3)\<close> the cross at \<open>(5,0)\<close>, whichever line comes
  first in the list.
\<close>

lemma junction_examples:
  "resolve_collisions
     (collisions [mk_Line (mk_Point 0 0) (mk_Point 10 0), mk_Line (mk_Point 0 0) (mk_Point 0 5)])
     = [(mk_Point 0 0, UNICODE_TL)]
   \<and> resolve_collisions
     (collisions [mk_Line (mk_Point 0 0) (mk_Point 0 5), mk_Line (mk_Point 0 0) (mk_Point 10 0)])
     = [(mk_Point 0 0, UNICODE_TL)]
   \<and> resolve_collisions
     (collisions [mk_Line (mk_Point 0 0) (mk_Point 10 0), mk_Line (mk_Point 0 (-5)) (mk_Point 0 0)])
     = [(mk_Point 0 0, UNICODE_BL)]
   \<and> resolve_collisions
     (collisions [mk_Line (mk_Point 0 (-5)) (mk_Point 0 0), mk_Line (mk_Point 0 0) (mk_Point 10 0)])
     = [(mk_Point 0 0, UNICODE_BL)]
   \<and> resolve_collisions
     (collisions [mk_Line (mk_Point 0 0) (mk_Point 10 0), mk_Line (mk_Point 5 (-3)) (mk_Point 5 3)])
     = [(mk_Point 5 0, UNICODE_X)]
   \<and> resolve_collisions
     (collisions [mk_Line (mk_Point 5 (-3)) (mk_Point 5 3), mk_Line (mk_Point 0 0) (mk_Point 10 0)])
     = [(mk_Point 5 0, UNICODE_X)]"
  by (simp add: collisions_eval resolve_collisions_def resolve_collision_def)

text \<open>
  Claim C3. The code departs from the table on a pair whose first line is a single
  point. The line \<open>(5,0)-(5,0)\<close> is vertical (\<^verbatim>\<open>Line.vertical\<close> holds and
  \<^verbatim>\<open>Line.orientation\<close> is \<open>VERTICAL\<close>) and meets the horizontal line \<open>(0,0)-(10,0)\<close>
  at \<open>(5,0)\<close>. Listed first, it is taken by \<^verbatim>\<open>resolve_collision\<close> for both \<open>h\<close> and
  \<open>v\<close>, the horizontal line is never looked at, and the result is the top-left corner;
  the table gives the T pointing down for this junction, and so does the code for the
  same two lines when the horizontal line is listed first.
\<close>

theorem resolve_collision_point_line_first:
  "horizontal (mk_Line (mk_Point 0 0) (mk_Point 10 0))
   \<and> orientation (mk_Line (mk_Point 0 0) (mk_Point 10 0)) = HORIZONTAL
   \<and> vertical (mk_Line (mk_Point 5 0) (mk_Point 5 0))
   \<and> orientation (mk_Line (mk_Point 5 0) (mk_Point 5 0)) = VERTICAL
   \<and> collisions [mk_Line (mk_Point 5 0) (mk_Point 5 0), mk_Line (mk_Point 0 0) (mk_Point 10 0)]
       = [((mk_Line (mk_Point 5 0) (mk_Point 5 0), mk_Line (mk_Point 0 0) (mk_Point 10 0)),
           ((5, 5), (0, 0)))]
   \<and> resolve_collisions
        (collisions [mk_Line (mk_Point 5 0) (mk_Point 5 0), mk_Line (mk_Point 0 0) (mk_Point 10 0)])
       = [(mk_Point 5 0, UNICODE_TL)]
   \<and> junction_glyph (mk_Line (mk_Point 0 0) (mk_Point 10 0))
        (mk_Line (mk_Point 5 0) (mk_Point 5 0)) (mk_Point 5 0) = UNICODE_HD
   \<and> collisions [mk_Line (mk_Point 0 0) (mk_Point 10 0), mk_Line (mk_Point 5 0) (mk_Point 5 0)]
       = [((mk_Line (mk_Point 0 0) (mk_Point 10 0), mk_Line (mk_Point 5 0) (mk_Point 5 0)),
           ((5, 5), (0, 0)))]
   \<and> resolve_collisions
        (collisions [mk_Line (mk_Point 0 0) (mk_Point 10 0), mk_Line (mk_Point 5 0) (mk_Point 5 0)])
       = [(mk_Point 5 0, UNICODE_HD)]"
  by (simp add: collisions_eval resolve_collisions_def resolve_collision_def junction_glyph_def)

subsection \<open>Parallel lines are never reported\<close>

lemma fold_preserves:
  assumes "\<And>x s. P s \<Longrightarrow> P (f x s)" and "P s"
  shows "P (fold f xs s)"
  using assms(2) by (induction xs arbitrary: s) (simp_all add: assms(1))

lemma collisions_body_keys:
  assumes "\<forall>k \<in> fst ` set results. \<not> parallel (fst k) (snd k)"
  shows "\<forall>k \<in> fst ` set (collisions_body ia jb results). \<not> parallel (fst k) (snd k)"
proof (cases ia; cases jb)
  fix i a j b
  assume ia: "ia = (i, a)" and jb: "jb = (j, b)"
  show ?thesis
  proof (cases "i = j \<or> parallel a b \<or> (b, a) \<in> fst ` set results")
    case True
    then show ?thesis using assms by (simp add: collisions_body_def ia jb)
  next
    case False
    then have np: "\<not> parallel a b" by simp
    show ?thesis
    proof (cases "collision a b")
      case (Pair hit segs)
      show ?thesis
      proof (cases "hit \<and> segs \<noteq> None")
        case True
        then obtain s where s: "segs = Some s" and hit: "hit" by auto
        have "collisions_body ia jb results = AList.update (a, b) s results"
          using False Pair s hit by (simp add: collisions_body_def ia jb)
        then show ?thesis using assms np by (simp add: dom_update)
      next
        case no: False
        have "collisions_body ia jb results = results"
          using False Pair no
          by (cases hit; cases segs) (simp_all add: collisions_body_def ia jb)
        then show ?thesis using assms by simp
      qed
    qed
  qed
qed

lemma collisions_keys:
  "\<forall>k \<in> fst ` set (collisions lines). \<not> parallel (fst k) (snd k)"
  unfolding collisions_def
  by (rule fold_preserves, rule fold_preserves, rule collisions_body_keys) simp_all

lemma parallel_sym: "parallel a b \<longleftrightarrow> parallel b a"
  by (auto simp add: parallel_def)

text \<open>
  Claim C6. For every list of lines and every two lines \<open>a\<close> and \<open>b\<close> that are parallel
  by \<^verbatim>\<open>Line.parallel\<close> (the same \<^verbatim>\<open>orientation\<close>: both horizontal, both
  vertical or both angled), the dictionary returned by \<^verbatim>\<open>Line.collisions\<close> has
  neither the key \<open>(a, b)\<close> nor the key \<open>(b, a)\<close>, whether or not the lines are
  collinear and overlapping.
\<close>

theorem collisions_no_parallel:
  assumes "parallel a b"
  shows "(a, b) \<notin> fst ` set (collisions lines) \<and> (b, a) \<notin> fst ` set (collisions lines)
       \<and> map_of (collisions lines) (a, b) = None \<and> map_of (collisions lines) (b, a) = None"
proof -
  have ab: "(a, b) \<notin> fst ` set (collisions lines)"
    using collisions_keys [of lines] assms by force
  have ba: "(b, a) \<notin> fst ` set (collisions lines)"
    using collisions_keys [of lines] assms parallel_sym [of a b] by force
  show ?thesis using ab ba by (simp add: map_of_eq_None_iff)
qed

theorem collisions_no_parallel_witness:
  "parallel (mk_Line (mk_Point 0 0) (mk_Point 10 0)) (mk_Line (mk_Point 5 0) (mk_Point 15 0))
   \<and> fst (collision (mk_Line (mk_Point 0 0) (mk_Point 10 0)) (mk_Line (mk_Point 5 0) (mk_Point 15 0)))
   \<and> map_of (collisions [mk_Line (mk_Point 0 0) (mk_Point 10 0),
                          mk_Line (mk_Point 5 0) (mk_Point 15 0),
                          mk_Line (mk_Point 7 (-2)) (mk_Point 7 2)])
        (mk_Line (mk_Point 0 0) (mk_Point 10 0), mk_Line (mk_Point 5 0) (mk_Point 15 0)) = None
   \<and> map_of (collisions [mk_Line (mk_Point 0 0) (mk_Point 10 0),
                          mk_Line (mk_Point 5 0) (mk_Point 15 0),
                          mk_Line (mk_Point 7 (-2)) (mk_Point 7 2)])
        (mk_Line (mk_Point 5 0) (mk_Point 15 0), mk_Line (mk_Point 0 0) (mk_Point 10 0)) = None
   \<and> length (collisions [mk_Line (mk_Point 0 0) (mk_Point 10 0),
                          mk_Line (mk_Point 5 0) (mk_Point 15 0),
                          mk_Line (mk_Point 7 (-2)) (mk_Point 7 2)]) = 2"
  using collisions_no_parallel
          [of "mk_Line (mk_Point 0 0) (mk_Point 10 0)" "mk_Line (mk_Point 5 0) (mk_Point 15 0)"
              "[mk_Line (mk_Point 0 0) (mk_Point 10 0), mk_Line (mk_Point 5 0) (mk_Point 15 0),
                mk_Line (mk_Point 7 (-2)) (mk_Point 7 2)]"]
  by (simp add: collisions_eval)

section \<open>Rectangles, windows and border lines\<close>

lemma Rect_init_ordered: "rect_ordered (Rect_init p q)"
  by (auto simp add: rect_ordered_def Rect_init_def)

lemma Rect_border_lines:
  assumes "rect_ordered r" and "l \<in> set (Rect_border r)"
  shows "orientation l \<noteq> ANGLED \<and> line_ordered l"
  using assms
  by (auto simp add: Rect_border_def Rect_iter_def rect_ordered_def line_ordered_def
        orientation_def vertical_def horizontal_def)

lemma border_lines_axis:
  assumes "l \<in> set (border_lines width height)"
  shows "orientation l \<noteq> ANGLED"
  using assms
  by (auto simp add: border_lines_def orientation_def vertical_def horizontal_def)

lemma border_lines_ordered_iff:
  "(\<forall>l \<in> set (border_lines width height). line_ordered l) \<longleftrightarrow> 1 \<le> width \<and> 1 \<le> height"
  by (auto simp add: border_lines_def line_ordered_def)

text \<open>
  Claim C9, as stated, fails for \<^verbatim>\<open>border_lines\<close>: a node whose width is 0 gets
  \<open>w = -1\<close> and lines that run from 0 back to \<open>-1\<close>. Tiling a terminal 2 columns wide
  among 3 layout columns of one cell each gives the widths 2, 0, 0; the top border of
  the cell in the second column is \<open>(0,0)-(-1,0)\<close>, whose endpoints are not ordered.
\<close>

theorem border_lines_ordered_counterexample:
  "LayoutCell_border_lines
     \<lparr>tui_size = (2, 10),
      layout_children = [\<lparr>column_children = [\<lparr>cell_children = [0]\<rparr>]\<rparr>,
                         \<lparr>column_children = [\<lparr>cell_children = [0]\<rparr>]\<rparr>,
                         \<lparr>column_children = [\<lparr>cell_children = [0]\<rparr>]\<rparr>],
      layout_popup = None\<rparr> 1 \<lparr>column_children = [\<lparr>cell_children = [0]\<rparr>]\<rparr> 0
     = Inr [mk_Line (mk_Point 0 0) (mk_Point (-1) 0),
            mk_Line (mk_Point 0 9) (mk_Point (-1) 9),
            mk_Line (mk_Point 0 0) (mk_Point 0 9),
            mk_Line (mk_Point (-1) 0) (mk_Point (-1) 9)]
   \<and> \<not> line_ordered (mk_Line (mk_Point 0 0) (mk_Point (-1) 0))"
  by (simp add: LayoutCell_border_lines_def LayoutCell_width_def
        LayoutCell_height_def LayoutColumn_size_def LayoutColumn_width_def
        LayoutColumn_height_def Layout_count_def LayoutColumn_count_def Layout_size_def
        tile_def subscript_def int_truediv_def double_quotient_int_def
        quotient_exponent_def round_half_even_def compute_bitlen
        border_lines_def line_ordered_def Let_def)

text \<open>
  Claim C9, amended. Every line produced by \<^verbatim>\<open>Rect.border\<close> on a rectangle that
  satisfies \<open>p \<le> q\<close>, as every rectangle built by \<^verbatim>\<open>Rect.__init__\<close> does, and every
  line produced by \<^verbatim>\<open>LayoutNode.border_lines\<close> is axis-aligned (its orientation is
  never \<open>ANGLED\<close>). The lines of \<^verbatim>\<open>Rect.border\<close> have ordered endpoints. The lines
  of \<^verbatim>\<open>border_lines\<close> all have ordered endpoints exactly when the node's width and
  height are both at least 1.
\<close>

theorem border_lines_axis_aligned_ordered:
  "rect_ordered (Rect_init p q)
   \<and> (\<forall>l \<in> set (Rect_border (Rect_init p q)). orientation l \<noteq> ANGLED \<and> line_ordered l)
   \<and> (rect_ordered r \<longrightarrow>
        (\<forall>l \<in> set (Rect_border r). orientation l \<noteq> ANGLED \<and> line_ordered l))
   \<and> (\<forall>l \<in> set (border_lines width height). orientation l \<noteq> ANGLED)
   \<and> ((\<forall>l \<in> set (border_lines width height). line_ordered l) \<longleftrightarrow> 1 \<le> width \<and> 1 \<le> height)"
  using Rect_init_ordered [of p q] Rect_border_lines border_lines_axis [of _ width height]
    border_lines_ordered_iff [of width height]
  by blast

theorem border_lines_axis_aligned_ordered_witness:
  "rect_ordered (Rect_init (mk_Point 7 1) (mk_Point 2 5))
   \<and> Rect_border (Rect_init (mk_Point 7 1) (mk_Point 2 5))
       = [mk_Line (mk_Point 2 1) (mk_Point 7 1), mk_Line (mk_Point 7 1) (mk_Point 7 5),
          mk_Line (mk_Point 2 5) (mk_Point 7 5), mk_Line (mk_Point 2 1) (mk_Point 2 5)]
   \<and> list_all (\<lambda>l. orientation l \<noteq> ANGLED \<and> line_ordered l)
        (Rect_border (Rect_init (mk_Point 7 1) (mk_Point 2 5)))
   \<and> border_lines 80 24
       = [mk_Line (mk_Point 0 0) (mk_Point 79 0), mk_Line (mk_Point 0 23) (mk_Point 79 23),
          mk_Line (mk_Point 0 0) (mk_Point 0 23), mk_Line (mk_Point 79 0) (mk_Point 79 23)]
   \<and> list_all (\<lambda>l. orientation l \<noteq> ANGLED \<and> line_ordered l) (border_lines 80 24)"
  using border_lines_axis_aligned_ordered
          [of "mk_Point 7 1" "mk_Point 2 5" "Rect_init (mk_Point 7 1) (mk_Point 2 5)" 80 24]
  by (simp add: Rect_init_def Rect_border_def Rect_iter_def border_lines_def list_all_iff)

subsection \<open>The corners of a window after \<^verbatim>\<open>move\<close> and \<^verbatim>\<open>resize\<close>\<close>

lemma Window_init_ordered: "rect_ordered (Window_init x y w h)"
  by (simp add: Window_init_def Rect_init_ordered)

lemma Rect_add_ordered: "rect_ordered (Rect_add a p)"
  by (simp add: Rect_add_def Rect_init_ordered)

lemma Window_resize_ordered:
  "0 \<le> w \<Longrightarrow> 0 \<le> h \<Longrightarrow> rect_ordered (Window_resize win w h)"
  by (simp add: Window_resize_def rect_ordered_def)

text \<open>
  Claim C5. \<^verbatim>\<open>Window.move\<close> replaces the corner \<open>p\<close> and leaves \<open>q\<close> where it was:
  the window built by \<^verbatim>\<open>Window(0, 0, 5, 5)\<close> has \<open>p = (0,0)\<close> and \<open>q = (5,5)\<close>, and
  after \<^verbatim>\<open>move(10, 10)\<close> it has \<open>p = (10,10)\<close> and \<open>q = (5,5)\<close>, so \<open>p \<le> q\<close> no longer
  holds. The same happens through \<^verbatim>\<open>LayoutCell.resize\<close>: with three columns of one
  cell, the window of the third column's cell is created at \<open>x = 20\<close> in a terminal 30
  wide; when the terminal is 120 wide, \<^verbatim>\<open>resize\<close> sets \<open>q.x = 20 + 40\<close> from the
  old corner and \<^verbatim>\<open>move\<close> then sets \<open>p.x = 80\<close>.
\<close>

theorem Window_move_breaks_order:
  "rect_ordered (Window_init 0 0 5 5)
   \<and> Window_move (Window_init 0 0 5 5) 10 10
       = \<lparr>rect_p = mk_Point 10 10, rect_q = mk_Point 5 5\<rparr>
   \<and> \<not> rect_ordered (Window_move (Window_init 0 0 5 5) 10 10)
   \<and> LayoutCell_create_window
        \<lparr>tui_size = (30, 10),
         layout_children = [\<lparr>column_children = [\<lparr>cell_children = [0]\<rparr>]\<rparr>,
                            \<lparr>column_children = [\<lparr>cell_children = [0]\<rparr>]\<rparr>,
                            \<lparr>column_children = [\<lparr>cell_children = [0]\<rparr>]\<rparr>],
         layout_popup = None\<rparr> 2 \<lparr>column_children = [\<lparr>cell_children = [0]\<rparr>]\<rparr> 0
       = Inr \<lparr>rect_p = mk_Point 20 0, rect_q = mk_Point 30 10\<rparr>
   \<and> LayoutCell_resize
        \<lparr>tui_size = (120, 10),
         layout_children = [\<lparr>column_children = [\<lparr>cell_children = [0]\<rparr>]\<rparr>,
                            \<lparr>column_children = [\<lparr>cell_children = [0]\<rparr>]\<rparr>,
                            \<lparr>column_children = [\<lparr>cell_children = [0]\<rparr>]\<rparr>],
         layout_popup = None\<rparr> 2 \<lparr>column_children = [\<lparr>cell_children = [0]\<rparr>]\<rparr> 0
        \<lparr>rect_p = mk_Point 20 0, rect_q = mk_Point 30 10\<rparr>
       = Inr \<lparr>rect_p = mk_Point 80 0, rect_q = mk_Point 60 10\<rparr>
   \<and> \<not> rect_ordered \<lparr>rect_p = mk_Point 80 0, rect_q = mk_Point 60 10\<rparr>"
  by (simp add: Window_init_def Window_move_def Window_resize_def Rect_init_def
        rect_ordered_def LayoutCell_create_window_def LayoutCell_resize_def
        LayoutCell_origin_def LayoutColumn_offset_def LayoutCell_offset_def
        LayoutCell_size_def LayoutCell_width_def LayoutCell_height_def
        LayoutColumn_size_def LayoutColumn_width_def LayoutColumn_height_def
        Layout_count_def LayoutColumn_count_def Layout_size_def tile_def subscript_def
        int_truediv_def double_quotient_int_def quotient_exponent_def round_half_even_def
        compute_bitlen numeral_2_eq_2 Let_def)

section \<open>A second popup on an owner\<close>

text \<open>
  Claim C4. When the owner (a layout or a popup) already has a popup in its slot,
  \<^verbatim>\<open>Popup.__init__\<close> for a new popup with that owner raises
  \<open>Exception ''Parent already has an active popup''\<close>; after the raise the owner's slot
  still refers to the original popup, the owner object is as it was, and so is every
  object other than the new one. \<^verbatim>\<open>Layout.popup_set\<close> on a layout whose slot is
  occupied raises \<open>Exception ''Two popups''\<close> and leaves the layout as it was.
\<close>

theorem Popup_init_occupied_slot:
  assumes "hp parent = Some owner" and "get_popup owner = Some existing"
    and "hp self = None"
  shows "snd (Popup_init hp self parent x y width height)
           = Some (Exception ''Parent already has an active popup'')
       \<and> owner_popup (fst (Popup_init hp self parent x y width height)) parent = Some existing
       \<and> fst (Popup_init hp self parent x y width height) parent = Some owner
       \<and> (\<forall>r. r \<noteq> self \<longrightarrow> fst (Popup_init hp self parent x y width height) r = hp r)
       \<and> (owner = LayoutObj L \<longrightarrow>
            Layout_popup_set L self = (L, Some (Exception ''Two popups'')))"
proof -
  have ne: "parent \<noteq> self" using assms(1,3) by auto
  have run: "Popup_init hp self parent x y width height =
      (hp(self \<mapsto> PopupObj \<lparr>popup_position = mk_Point x y, popup_parent = parent,
                  popup_width = width, popup_height = height,
                  popup_window = Window_init x y width height, popup_popup = None\<rparr>),
       Some (Exception ''Parent already has an active popup''))"
    using assms(1,2) ne
    by (auto simp add: Popup_init_def get_popup_def Let_def split: option.splits)
  have set: "owner = LayoutObj L \<longrightarrow>
      Layout_popup_set L self = (L, Some (Exception ''Two popups''))"
    using assms(2) by (auto simp add: Layout_popup_set_def get_popup_def popup_attr_def)
  show ?thesis
    using assms(1,2) ne set by (simp add: run owner_popup_def)
qed

theorem Popup_init_occupied_slot_witness:
  "snd (Popup_init
          (Map.empty(0 \<mapsto> LayoutObj \<lparr>tui_size = (80, 24), layout_children = [],
                                     layout_popup = Some 1\<rparr>))
          2 0 40 20 60 10)
     = Some (Exception ''Parent already has an active popup'')
   \<and> owner_popup
        (fst (Popup_init
          (Map.empty(0 \<mapsto> LayoutObj \<lparr>tui_size = (80, 24), layout_children = [],
                                     layout_popup = Some 1\<rparr>))
          2 0 40 20 60 10)) 0 = Some 1
   \<and> Layout_popup_set \<lparr>tui_size = (80, 24), layout_children = [], layout_popup = Some 1\<rparr> 2
       = (\<lparr>tui_size = (80, 24), layout_children = [], layout_popup = Some 1\<rparr>,
          Some (Exception ''Two popups''))
   \<and> snd (Popup_init
          (fst (Popup_init
             (fst (Popup_init
                (Map.empty(0 \<mapsto> LayoutObj \<lparr>tui_size = (80, 24), layout_children = [],
                                           layout_popup = None\<rparr>))
                1 0 40 20 60 10))
             2 1 40 20 60 10))
          3 1 40 20 60 10)
       = Some (Exception ''Parent already has an active popup'')
   \<and> snd (Popup_init
          (Map.empty(0 \<mapsto> LayoutObj \<lparr>tui_size = (80, 24), layout_children = [],
                                     layout_popup = None\<rparr>))
          1 0 40 20 60 10) = None
   \<and> owner_popup
        (fst (Popup_init
          (Map.empty(0 \<mapsto> LayoutObj \<lparr>tui_size = (80, 24), layout_children = [],
                                     layout_popup = None\<rparr>))
          1 0 40 20 60 10)) 0 = Some 1"
  using Popup_init_occupied_slot
          [of "Map.empty(0 \<mapsto> LayoutObj \<lparr>tui_size = (80, 24), layout_children = [],
                                          layout_popup = Some 1\<rparr>)"
              0 "LayoutObj \<lparr>tui_size = (80, 24), layout_children = [], layout_popup = Some 1\<rparr>"
              1 2 40 20 60 10
              "\<lparr>tui_size = (80, 24), layout_children = [], layout_popup = Some 1\<rparr>"]
  by (simp add: Popup_init_def owner_popup_def get_popup_def popup_attr_def set_popup_def
        Layout_popup_set_def Let_def)

section \<open>Per-view state of a cell: created once, returned ever after\<close>

lemma initial_world_inv: "calls_match_states initial_world"
  by (simp add: calls_match_states_def initial_world_def)

lemma state_inv:
  assumes "calls_match_states w"
  shows "calls_match_states (snd (LayoutCell_state init_state w c v))"
  using assms
  by (auto simp add: calls_match_states_def LayoutCell_state_def Let_def
        split: option.splits)

lemma initial_world_from_calls: "states_from_calls init_state initial_world"
  by (simp add: states_from_calls_def initial_world_def)

lemma state_from_calls:
  assumes "states_from_calls init_state w"
  shows "states_from_calls init_state (snd (LayoutCell_state init_state w c v))"
proof (cases "cell_states w c v")
  case (Some s)
  then show ?thesis using assms by (simp add: LayoutCell_state_def)
next
  case None
  let ?n = "length (init_state_calls w)"
  let ?w' = "snd (LayoutCell_state init_state w c v)"
  have calls: "init_state_calls ?w' = init_state_calls w @ [(c, v)]"
    using None by (simp add: LayoutCell_state_def Let_def)
  have states: "cell_states ?w' =
      (cell_states w)(c := (cell_states w c)(v \<mapsto> init_state v ?n))"
    using None by (simp add: LayoutCell_state_def Let_def)
  show ?thesis
    unfolding states_from_calls_def
  proof (intro allI impI)
    fix c' v' s
    assume st: "cell_states ?w' c' v' = Some s"
    show "\<exists>k < length (init_state_calls ?w').
        init_state_calls ?w' ! k = (c', v') \<and> s = init_state v' k"
    proof (cases "(c', v') = (c, v)")
      case True
      then have "s = init_state v ?n" using st states by simp
      then show ?thesis using True calls by (intro exI [of _ ?n]) simp
    next
      case False
      then have "cell_states w c' v' = Some s" using st states by (auto split: if_splits)
      then obtain k where k: "k < ?n" and at: "init_state_calls w ! k = (c', v')"
        and s: "s = init_state v' k"
        using assms unfolding states_from_calls_def by blast
      then show ?thesis using calls by (intro exI [of _ k]) (simp add: nth_append)
    qed
  qed
qed

lemma state_stored:
  "cell_states (snd (LayoutCell_state init_state w c v)) c v
     = Some (fst (LayoutCell_state init_state w c v))"
  by (simp add: LayoutCell_state_def Let_def split: option.splits)

lemma state_kept:
  assumes "cell_states w c v = Some s"
  shows "cell_states (snd (LayoutCell_state init_state w c' v')) c v = Some s"
  using assms by (auto simp add: LayoutCell_state_def Let_def split: option.splits)

lemma state_hit:
  assumes "cell_states w c v = Some s"
  shows "LayoutCell_state init_state w c v = (s, w)"
  using assms by (simp add: LayoutCell_state_def)

lemma lookups_Cons:
  "lookups init_state w ((c, v) # reqs) =
     (fst (LayoutCell_state init_state w c v)
        # fst (lookups init_state (snd (LayoutCell_state init_state w c v)) reqs),
      snd (lookups init_state (snd (LayoutCell_state init_state w c v)) reqs))"
  by (simp add: Let_def split: prod.splits)

lemma lookups_length: "length (fst (lookups init_state w reqs)) = length reqs"
proof (induction reqs arbitrary: w)
  case Nil
  then show ?case by simp
next
  case (Cons r reqs)
  obtain c v where r: "r = (c, v)" by (cases r)
  show ?case unfolding r lookups_Cons by (simp add: Cons.IH)
qed

lemma lookups_inv:
  "calls_match_states w \<Longrightarrow> calls_match_states (snd (lookups init_state w reqs))"
proof (induction reqs arbitrary: w)
  case Nil
  then show ?case by simp
next
  case (Cons r reqs)
  obtain c v where r: "r = (c, v)" by (cases r)
  have "calls_match_states (snd (LayoutCell_state init_state w c v))"
    using Cons.prems by (rule state_inv)
  then have "calls_match_states
      (snd (lookups init_state (snd (LayoutCell_state init_state w c v)) reqs))"
    by (rule Cons.IH)
  then show ?case unfolding r lookups_Cons by simp
qed

lemma lookups_from_calls:
  "states_from_calls init_state w \<Longrightarrow>
     states_from_calls init_state (snd (lookups init_state w reqs))"
proof (induction reqs arbitrary: w)
  case Nil
  then show ?case by simp
next
  case (Cons r reqs)
  obtain c v where r: "r = (c, v)" by (cases r)
  have "states_from_calls init_state (snd (LayoutCell_state init_state w c v))"
    using Cons.prems by (rule state_from_calls)
  then have "states_from_calls init_state
      (snd (lookups init_state (snd (LayoutCell_state init_state w c v)) reqs))"
    by (rule Cons.IH)
  then show ?case unfolding r lookups_Cons by simp
qed

lemma lookups_known:
  assumes "cell_states w c v = Some s"
  shows "cell_states (snd (lookups init_state w reqs)) c v = Some s
       \<and> (\<forall>s'. ((c, v), s') \<in> set (zip reqs (fst (lookups init_state w reqs))) \<longrightarrow> s' = s)"
  using assms
proof (induction reqs arbitrary: w)
  case Nil
  then show ?case by simp
next
  case (Cons r reqs)
  obtain c' v' where r: "r = (c', v')" by (cases r)
  let ?w1 = "snd (LayoutCell_state init_state w c' v')"
  have kept: "cell_states ?w1 c v = Some s"
    using Cons.prems by (rule state_kept)
  have head: "(c', v') = (c, v) \<longrightarrow> fst (LayoutCell_state init_state w c' v') = s"
    using Cons.prems by (auto simp add: state_hit)
  show ?case
    unfolding r lookups_Cons using Cons.IH [OF kept] head by auto
qed

lemma lookups_final:
  assumes "((c, v), s) \<in> set (zip reqs (fst (lookups init_state w reqs)))"
  shows "cell_states (snd (lookups init_state w reqs)) c v = Some s"
  using assms
proof (induction reqs arbitrary: w)
  case Nil
  then show ?case by simp
next
  case (Cons r reqs)
  obtain c' v' where r: "r = (c', v')" by (cases r)
  let ?s1 = "fst (LayoutCell_state init_state w c' v')"
  let ?w1 = "snd (LayoutCell_state init_state w c' v')"
  have mem: "((c, v), s) = ((c', v'), ?s1)
      \<or> ((c, v), s) \<in> set (zip reqs (fst (lookups init_state ?w1 reqs)))"
    using Cons.prems unfolding r lookups_Cons by simp
  have fin: "snd (lookups init_state w (r # reqs)) = snd (lookups init_state ?w1 reqs)"
    unfolding r lookups_Cons by simp
  show ?case
  proof (cases "(c', v') = (c, v)")
    case True
    have "cell_states ?w1 c v = Some ?s1"
      using True state_stored [of init_state w c v] by simp
    then have "cell_states (snd (lookups init_state ?w1 reqs)) c v = Some ?s1
        \<and> (\<forall>t. ((c, v), t) \<in> set (zip reqs (fst (lookups init_state ?w1 reqs))) \<longrightarrow> t = ?s1)"
      by (rule lookups_known)
    then show ?thesis using mem fin by auto
  next
    case False
    then have "((c, v), s) \<in> set (zip reqs (fst (lookups init_state ?w1 reqs)))"
      using mem by auto
    then show ?thesis unfolding fin by (rule Cons.IH)
  qed
qed

lemma state_other:
  assumes "(c', v') \<noteq> (c, v)"
  shows "cell_states (snd (LayoutCell_state init_state w c' v')) c v = cell_states w c v"
  using assms by (auto simp add: LayoutCell_state_def Let_def split: option.splits)

lemma lookups_unrequested:
  assumes "(c, v) \<notin> set reqs"
  shows "cell_states (snd (lookups init_state w reqs)) c v = cell_states w c v"
  using assms
proof (induction reqs arbitrary: w)
  case Nil
  then show ?case by simp
next
  case (Cons r reqs)
  obtain c' v' where r: "r = (c', v')" by (cases r)
  have ne: "(c', v') \<noteq> (c, v)" and rest: "(c, v) \<notin> set reqs"
    using Cons.prems r by auto
  show ?case
    unfolding r lookups_Cons using Cons.IH [OF rest] state_other [OF ne] by simp
qed

lemma lookups_snoc_world:
  "snd (lookups init_state w (reqs @ [(c, v)]))
     = snd (LayoutCell_state init_state (snd (lookups init_state w reqs)) c v)"
proof (induction reqs arbitrary: w)
  case Nil
  show ?case unfolding append_Nil lookups_Cons by simp
next
  case (Cons r reqs)
  obtain c' v' where r: "r = (c', v')" by (cases r)
  show ?case unfolding r append_Cons lookups_Cons by (simp add: Cons.IH)
qed

lemma lookups_requested:
  assumes "(c, v) \<in> set reqs"
  shows "\<exists>s. ((c, v), s) \<in> set (zip reqs (fst (lookups init_state w reqs)))"
proof -
  obtain i where i: "i < length reqs" and at: "reqs ! i = (c, v)"
    using assms by (auto simp add: in_set_conv_nth)
  have "(reqs ! i, fst (lookups init_state w reqs) ! i)
      \<in> set (zip reqs (fst (lookups init_state w reqs)))"
    using i by (auto simp add: set_zip lookups_length)
  then show ?thesis using at by auto
qed

lemma lookups_log:
  "init_state_calls (snd (lookups init_state initial_world reqs)) = rev (remdups (rev reqs))"
proof (induction reqs rule: rev_induct)
  case Nil
  show ?case by (simp add: initial_world_def)
next
  case (snoc r reqs)
  obtain c v where r: "r = (c, v)" by (cases r)
  let ?w = "snd (lookups init_state initial_world reqs)"
  show ?case
  proof (cases "(c, v) \<in> set reqs")
    case True
    then obtain s where "((c, v), s) \<in> set (zip reqs (fst (lookups init_state initial_world reqs)))"
      using lookups_requested by blast
    then have "cell_states ?w c v = Some s" by (rule lookups_final)
    then have "snd (LayoutCell_state init_state ?w c v) = ?w" by (simp add: state_hit)
    then show ?thesis using True snoc.IH by (simp add: r lookups_snoc_world)
  next
    case False
    then have "cell_states ?w c v = cell_states initial_world c v"
      by (rule lookups_unrequested)
    then have none: "cell_states ?w c v = None" by (simp add: initial_world_def)
    have "init_state_calls (snd (LayoutCell_state init_state ?w c v))
        = init_state_calls ?w @ [(c, v)]"
      using none by (simp add: LayoutCell_state_def Let_def)
    then show ?thesis using False snoc.IH by (simp add: r lookups_snoc_world)
  qed
qed

text \<open>
  Claim C8. Starting from freshly constructed cells, after any run of state lookups by
  any cells for any views: the log has at most one \<^verbatim>\<open>init_state\<close> call for each
  (cell, view) pair, exactly one if the pair was requested and none if it was not, and
  the calls were made in the order in which the pairs were first requested (the log is
  the list of requests with every repetition after the first removed); any two lookups
  of the run
  for the same pair returned the same state object, which is the object that the logged
  \<^verbatim>\<open>init_state\<close> call of the pair returned; and a further lookup for a requested
  pair returns that object again, calling nothing and changing nothing.
\<close>

theorem state_created_once:
  "count_list (init_state_calls (snd (lookups init_state initial_world reqs))) (c, v) \<le> 1
   \<and> ((c, v) \<in> set reqs \<longrightarrow>
        count_list (init_state_calls (snd (lookups init_state initial_world reqs))) (c, v) = 1)
   \<and> ((c, v) \<notin> set reqs \<longrightarrow>
        count_list (init_state_calls (snd (lookups init_state initial_world reqs))) (c, v) = 0)
   \<and> init_state_calls (snd (lookups init_state initial_world reqs)) = rev (remdups (rev reqs))
   \<and> length (fst (lookups init_state initial_world reqs)) = length reqs
   \<and> (\<forall>s s'. ((c, v), s) \<in> set (zip reqs (fst (lookups init_state initial_world reqs)))
            \<and> ((c, v), s') \<in> set (zip reqs (fst (lookups init_state initial_world reqs)))
            \<longrightarrow> s = s')
   \<and> (\<forall>s. ((c, v), s) \<in> set (zip reqs (fst (lookups init_state initial_world reqs))) \<longrightarrow>
          (\<exists>k < length (init_state_calls (snd (lookups init_state initial_world reqs))).
              init_state_calls (snd (lookups init_state initial_world reqs)) ! k = (c, v)
              \<and> s = init_state v k))
   \<and> (\<forall>s. ((c, v), s) \<in> set (zip reqs (fst (lookups init_state initial_world reqs))) \<longrightarrow>
          LayoutCell_state init_state (snd (lookups init_state initial_world reqs)) c v
            = (s, snd (lookups init_state initial_world reqs)))"
proof -
  let ?outs = "fst (lookups init_state initial_world reqs)"
  let ?w = "snd (lookups init_state initial_world reqs)"
  have inv: "calls_match_states ?w"
    using initial_world_inv by (rule lookups_inv)
  have count: "count_list (init_state_calls ?w) (c, v)
      = (if cell_states ?w c v = None then 0 else 1)"
    using inv by (simp add: calls_match_states_def)
  have most: "count_list (init_state_calls ?w) (c, v) \<le> 1"
    using count by simp
  have one: "(c, v) \<in> set reqs \<longrightarrow> count_list (init_state_calls ?w) (c, v) = 1"
  proof
    assume "(c, v) \<in> set reqs"
    then obtain s where "((c, v), s) \<in> set (zip reqs ?outs)"
      using lookups_requested by blast
    then have "cell_states ?w c v = Some s" by (rule lookups_final)
    then show "count_list (init_state_calls ?w) (c, v) = 1" using count by simp
  qed
  have zero: "(c, v) \<notin> set reqs \<longrightarrow> count_list (init_state_calls ?w) (c, v) = 0"
  proof
    assume "(c, v) \<notin> set reqs"
    then have "cell_states ?w c v = cell_states initial_world c v"
      by (rule lookups_unrequested)
    then have "cell_states ?w c v = None" by (simp add: initial_world_def)
    then show "count_list (init_state_calls ?w) (c, v) = 0" using count by simp
  qed
  have log: "init_state_calls ?w = rev (remdups (rev reqs))"
    by (rule lookups_log)
  have same: "\<forall>s s'. ((c, v), s) \<in> set (zip reqs ?outs) \<and> ((c, v), s') \<in> set (zip reqs ?outs)
      \<longrightarrow> s = s'"
  proof (intro allI impI)
    fix s s'
    assume both: "((c, v), s) \<in> set (zip reqs ?outs) \<and> ((c, v), s') \<in> set (zip reqs ?outs)"
    have "cell_states ?w c v = Some s" using both lookups_final by blast
    moreover have "cell_states ?w c v = Some s'" using both lookups_final by blast
    ultimately show "s = s'" by simp
  qed
  have again: "\<forall>s. ((c, v), s) \<in> set (zip reqs ?outs) \<longrightarrow>
      LayoutCell_state init_state ?w c v = (s, ?w)"
  proof (intro allI impI)
    fix s
    assume "((c, v), s) \<in> set (zip reqs ?outs)"
    then have "cell_states ?w c v = Some s" by (rule lookups_final)
    then show "LayoutCell_state init_state ?w c v = (s, ?w)" by (rule state_hit)
  qed
  have prov: "states_from_calls init_state ?w"
    using initial_world_from_calls by (rule lookups_from_calls)
  have made: "\<forall>s. ((c, v), s) \<in> set (zip reqs ?outs) \<longrightarrow>
      (\<exists>k < length (init_state_calls ?w). init_state_calls ?w ! k = (c, v) \<and> s = init_state v k)"
  proof (intro allI impI)
    fix s
    assume "((c, v), s) \<in> set (zip reqs ?outs)"
    then have "cell_states ?w c v = Some s" by (rule lookups_final)
    then show "\<exists>k < length (init_state_calls ?w).
        init_state_calls ?w ! k = (c, v) \<and> s = init_state v k"
      using prov unfolding states_from_calls_def by blast
  qed
  have len: "length ?outs = length reqs" by (rule lookups_length)
  show ?thesis
    using most one zero log same made again len by (intro conjI)
qed

theorem state_created_once_witness:
  "lookups (\<lambda>view k. 100 + k) initial_world [(0, 7), (1, 7), (0, 7), (0, 8), (1, 7), (0, 7)]
     = ([100, 101, 100, 102, 101, 100],
        snd (lookups (\<lambda>view k. 100 + k) initial_world
               [(0, 7), (1, 7), (0, 7), (0, 8), (1, 7), (0, 7)]))
   \<and> init_state_calls (snd (lookups (\<lambda>view k. 100 + k) initial_world
        [(0, 7), (1, 7), (0, 7), (0, 8), (1, 7), (0, 7)])) = [(0, 7), (1, 7), (0, 8)]
   \<and> count_list (init_state_calls (snd (lookups (\<lambda>view k. 100 + k) initial_world
        [(0, 7), (1, 7), (0, 7), (0, 8), (1, 7), (0, 7)]))) (0, 7) = 1
   \<and> count_list (init_state_calls (snd (lookups (\<lambda>view k. 100 + k) initial_world
        [(0, 7), (1, 7), (0, 7), (0, 8), (1, 7), (0, 7)]))) (1, 8) = 0"
  using state_created_once
          [of "\<lambda>view k. 100 + k" "[(0, 7), (1, 7), (0, 7), (0, 8), (1, 7), (0, 7)]" 0 7]
  by (simp add: LayoutCell_state_def initial_world_def Let_def)

end
